theory Spec2Isabelle
  imports Complex_Main "HOL-Library.AList" "HOL-Library.Product_Lexorder"
    "HOL-Library.Char_ord" "HOL-Library.List_Lexorder"
begin

section \<open>Conventions of the embedding\<close>

text \<open>
  The backend is Python. Its numbers are \<^verbatim>\<open>float\<close> and \<^verbatim>\<open>Decimal\<close> values; both are
  modelled by \<^typ>\<open>real\<close>, so binary rounding, infinities and NaN are outside the model.
  Two effects of the number types are in it: a \<^verbatim>\<open>Numeric\<close> column comes back from the
  database rounded to its scale, and \<^verbatim>\<open>math.exp\<close> raises \<^verbatim>\<open>OverflowError\<close> when its
  result is beyond the doubles. A
  \<^verbatim>\<open>datetime.date\<close> is modelled by its proleptic Gregorian ordinal (the library's
  \<^verbatim>\<open>toordinal()\<close>): dates compare as their ordinals do, and adding a
  \<^verbatim>\<open>timedelta\<close> adds to the ordinal and raises \<^verbatim>\<open>OverflowError\<close> outside
  \<^verbatim>\<open>date.min .. date.max\<close>. The database is the list of rows of the
  \<^verbatim>\<open>transactions\<close> table, the network is a function from request to outcome, and the
  module-level random generator is the sequence of standard normal variates it will
  produce.
\<close>

datatype py_error = OverflowError | ValueError | IndexError | KeyError | HTTPError

type_synonym date = int

subsection \<open>models.py: the transactions table\<close>

record transaction =
  txn_id :: int
  user_id :: int
  txn_date :: date
  txn_type :: string
  category :: "string option"
  amount :: real
  asset_symbol :: "string option"
  shares :: "real option"
  price_at_trade :: "real option"

text \<open>
  A row holds what was stored. The columns \<^verbatim>\<open>amount\<close>, \<^verbatim>\<open>shares\<close> and
  \<^verbatim>\<open>price_at_trade\<close> are \<^verbatim>\<open>Numeric\<close> with scales 2, 6 and 4; SQLite stores the float it
  is given, at full precision, and the scale applies when a value is read.
\<close>

subsection \<open>SQL and Python primitives used by crud.py\<close>

text \<open>
  The result processor of a \<^verbatim>\<open>Numeric\<close> column of scale \<open>s\<close> on SQLite,
  \<^verbatim>\<open>Decimal("%.sf" % value)\<close>: the value rounded to \<open>s\<close> decimal places, a tie going to
  the even neighbour. It applies to a column read through the ORM and to the \<^verbatim>\<open>SUM\<close> of
  such a column.
\<close>

definition round_half_even :: "real \<Rightarrow> int" where
  "round_half_even x =
     (let f = \<lfloor>x\<rfloor>; d = x - of_int f
      in if d < 1 / 2 then f else if 1 / 2 < d then f + 1 else if even f then f else f + 1)"

definition to_decimal :: "nat \<Rightarrow> real \<Rightarrow> real" where
  "to_decimal scale x = of_int (round_half_even (x * 10 ^ scale)) / 10 ^ scale"



text \<open>\<^verbatim>\<open>d.get(k, default)\<close> on a dict held as an association list.\<close>

definition dict_get :: "('k \<times> 'v) list \<Rightarrow> 'k \<Rightarrow> 'v \<Rightarrow> 'v" where
  "dict_get d k dflt = (case map_of d k of None \<Rightarrow> dflt | Some v \<Rightarrow> v)"

subsection \<open>crud.py\<close>





subsection \<open>datetime.date\<close>

text \<open>
  The library's calendar arithmetic (\<^verbatim>\<open>_is_leap\<close>, \<^verbatim>\<open>_days_before_year\<close>,
  \<^verbatim>\<open>_days_in_month\<close>, \<^verbatim>\<open>_days_before_month\<close>, \<^verbatim>\<open>_ymd2ord\<close>, \<^verbatim>\<open>_ord2ymd\<close>) on
  ordinals; \<^verbatim>\<open>//\<close> is floor division, as \<open>div\<close> on \<^typ>\<open>int\<close> is.
\<close>

definition MAXORDINAL :: int where
  "MAXORDINAL = 3652059"

definition valid_date :: "date \<Rightarrow> bool" where
  "valid_date d = (1 \<le> d \<and> d \<le> MAXORDINAL)"

definition DAYS_IN_MONTH :: "int list" where
  "DAYS_IN_MONTH = [-1, 31, 28, 31, 30, 31, 30, 31, 31, 30, 31, 30, 31]"

definition DAYS_BEFORE_MONTH :: "int list" where
  "DAYS_BEFORE_MONTH = [-1, 0, 31, 59, 90, 120, 151, 181, 212, 243, 273, 304, 334]"

definition is_leap :: "int \<Rightarrow> bool" where
  "is_leap year = (year mod 4 = 0 \<and> (year mod 100 \<noteq> 0 \<or> year mod 400 = 0))"

definition days_before_year :: "int \<Rightarrow> int" where
  "days_before_year year = (let y = year - 1 in y * 365 + y div 4 - y div 100 + y div 400)"

definition days_in_month :: "int \<Rightarrow> int \<Rightarrow> int" where
  "days_in_month year month =
     (if month = 2 \<and> is_leap year then 29 else DAYS_IN_MONTH ! nat month)"

definition days_before_month :: "int \<Rightarrow> int \<Rightarrow> int" where
  "days_before_month year month =
     DAYS_BEFORE_MONTH ! nat month + (if month > 2 \<and> is_leap year then 1 else 0)"

definition ymd2ord :: "int \<Rightarrow> int \<Rightarrow> int \<Rightarrow> int" where
  "ymd2ord year month day = days_before_year year + days_before_month year month + day"

definition ord2ymd :: "int \<Rightarrow> int \<times> int \<times> int" where
  "ord2ymd ordinal =
     (let n = ordinal - 1;
          n400 = n div 146097; n = n mod 146097;
          year = n400 * 400 + 1;
          n100 = n div 36524; n = n mod 36524;
          n4 = n div 1461; n = n mod 1461;
          n1 = n div 365; n = n mod 365;
          year = year + n100 * 100 + n4 * 4 + n1
      in if n1 = 4 \<or> n100 = 4 then (year - 1, 12, 31)
         else
           (let leapyear = (n1 = 3 \<and> (n4 \<noteq> 24 \<or> n100 = 3));
                month = (n + 50) div 32;
                preceding = DAYS_BEFORE_MONTH ! nat month + (if month > 2 \<and> leapyear then 1 else 0)
            in if preceding > n
               then (let month = month - 1;
                         preceding = preceding
                           - (DAYS_IN_MONTH ! nat month + (if month = 2 \<and> leapyear then 1 else 0))
                     in (year, month, n - preceding + 1))
               else (year, month, n - preceding + 1)))"

text \<open>The attributes \<^verbatim>\<open>d.year\<close> and \<^verbatim>\<open>d.month\<close>.\<close>

definition year_of :: "date \<Rightarrow> int" where
  "year_of d = fst (ord2ymd d)"

definition month_of :: "date \<Rightarrow> int" where
  "month_of d = fst (snd (ord2ymd d))"

text \<open>The constructor \<^verbatim>\<open>date(year, month, day)\<close>, which raises \<^verbatim>\<open>ValueError\<close> on fields out of range.\<close>

definition mk_date :: "int \<Rightarrow> int \<Rightarrow> int \<Rightarrow> py_error + date" where
  "mk_date year month day =
     (if \<not> (1 \<le> year \<and> year \<le> 9999) then Inl ValueError
      else if \<not> (1 \<le> month \<and> month \<le> 12) then Inl ValueError
      else if \<not> (1 \<le> day \<and> day \<le> days_in_month year month) then Inl ValueError
      else Inr (ymd2ord year month day))"

text \<open>\<^verbatim>\<open>d + timedelta(days=k)\<close>; \<^verbatim>\<open>d - timedelta(days=k)\<close> is \<open>date_add d (- k)\<close>.\<close>

definition date_add :: "date \<Rightarrow> int \<Rightarrow> py_error + date" where
  "date_add d days = (let ordinal = d + days
                      in if 0 < ordinal \<and> ordinal \<le> MAXORDINAL then Inr ordinal else Inl OverflowError)"

text \<open>
  The loop of \<^verbatim>\<open>date_range\<close> (main.py) and of \<^verbatim>\<open>daterange\<close> (market.py), which are the
  same code: \<^verbatim>\<open>while cur <= end: res.append(cur); cur = cur + timedelta(days=1)\<close>.
\<close>

function range_loop :: "date \<Rightarrow> date \<Rightarrow> date list \<Rightarrow> py_error + date list" where
  "range_loop cur end_d res =
     (if cur \<le> end_d
      then (case date_add cur 1 of
              Inl e \<Rightarrow> Inl e
            | Inr nxt \<Rightarrow> range_loop nxt end_d (res @ [cur]))
      else Inr res)"
  by pat_completeness auto
termination
  by (relation "measure (\<lambda>(cur, end_d, res). nat (end_d + 1 - cur))")
     (auto simp: date_add_def Let_def split: if_splits)

declare range_loop.simps [simp del]


definition daterange :: "date \<Rightarrow> date \<Rightarrow> py_error + date list" where
  "daterange start end_d = range_loop start end_d []"

subsection \<open>Strings\<close>

text \<open>
  The \<^verbatim>\<open>str\<close> methods the code calls, on ASCII text: \<^verbatim>\<open>lower\<close>, \<^verbatim>\<open>upper\<close>, the
  substring test \<^verbatim>\<open>in\<close>, \<^verbatim>\<open>strip\<close>, \<^verbatim>\<open>splitlines\<close> and \<^verbatim>\<open>split(sep)\<close>.
\<close>

definition lower_char :: "char \<Rightarrow> char" where
  "lower_char c = (let n = (of_char c :: nat) in if 65 \<le> n \<and> n \<le> 90 then char_of (n + 32) else c)"


definition lower :: "string \<Rightarrow> string" where
  "lower s = map lower_char s"


fun contains :: "string \<Rightarrow> string \<Rightarrow> bool" where
  "contains needle [] = (needle = [])"
| "contains needle (c # cs) = (take (length needle) (c # cs) = needle \<or> contains needle cs)"

definition is_space :: "char \<Rightarrow> bool" where
  "is_space c = ((of_char c :: nat) \<in> {9, 10, 11, 12, 13, 28, 29, 30, 31, 32})"

definition strip :: "string \<Rightarrow> string" where
  "strip s = rev (dropWhile is_space (rev (dropWhile is_space s)))"

definition is_linebreak :: "char \<Rightarrow> bool" where
  "is_linebreak c = ((of_char c :: nat) \<in> {10, 11, 12, 13, 28, 29, 30})"

fun splitlines_from :: "string \<Rightarrow> string \<Rightarrow> string list" where
  "splitlines_from [] cur = (if cur = [] then [] else [cur])"
| "splitlines_from [c] cur = (if is_linebreak c then [cur] else [cur @ [c]])"
| "splitlines_from (c # d # cs) cur =
     (if (of_char c :: nat) = 13 \<and> (of_char d :: nat) = 10 then cur # splitlines_from cs []
      else if is_linebreak c then cur # splitlines_from (d # cs) []
      else splitlines_from (d # cs) (cur @ [c]))"

definition splitlines :: "string \<Rightarrow> string list" where
  "splitlines s = splitlines_from s []"

fun split_from :: "char \<Rightarrow> string \<Rightarrow> string \<Rightarrow> string list" where
  "split_from sep [] cur = [cur]"
| "split_from sep (c # cs) cur =
     (if c = sep then cur # split_from sep cs [] else split_from sep cs (cur @ [c]))"

definition split :: "string \<Rightarrow> char \<Rightarrow> string list" where
  "split s sep = split_from sep s []"

subsection \<open>random\<close>

text \<open>
  The state of the module-level generator is the sequence of standard normal variates
  it has yet to produce. \<^verbatim>\<open>random.gauss(mu, sigma)\<close> takes the next one, \<open>z\<close>, and
  returns \<^verbatim>\<open>mu + z * sigma\<close>.
\<close>

type_synonym rng = "nat \<Rightarrow> real"

definition gauss :: "real \<Rightarrow> real \<Rightarrow> rng \<Rightarrow> real \<times> rng" where
  "gauss mu sigma g = (mu + g 0 * sigma, \<lambda>i. g (Suc i))"

subsection \<open>market.py\<close>

record price_row =
  row_date :: date
  close :: real

record response =
  status_code :: int
  resp_text :: string

text \<open>
  What \<^verbatim>\<open>await client.get(url)\<close> does for each URL during one call of
  \<^verbatim>\<open>fetch_stooq_history\<close>: it raises or it answers.
\<close>

type_synonym client = "string \<Rightarrow> py_error + response"

text \<open>
  The two library parsers the CSV loop calls, \<^verbatim>\<open>datetime.strptime(s, "%Y-%m-%d").date()\<close>
  and \<^verbatim>\<open>float(s)\<close>; \<open>None\<close> is the exception they raise on text they do not accept.
\<close>

record pylib =
  strptime :: "string \<Rightarrow> date option"
  to_float :: "string \<Rightarrow> real option"

definition CSV_HEADER :: string where
  "CSV_HEADER = ''Date,Open,High,Low,Close,Volume''"

definition stooq_url :: "string \<Rightarrow> string" where
  "stooq_url cand = ''https://stooq.com/q/d/l/?s='' @ cand @ ''&i=d''"

text \<open>The loop over \<^verbatim>\<open>lines[1:]\<close>, with \<^verbatim>\<open>out\<close> as its accumulator.\<close>

fun parse_lines :: "pylib \<Rightarrow> string list \<Rightarrow> price_row list \<Rightarrow> price_row list" where
  "parse_lines lib [] out = out"
| "parse_lines lib (line # lines) out =
     (let parts = split line (CHR '','')
      in if length parts < 5 then parse_lines lib lines out
         else (case strptime lib (parts ! 0) of
                 None \<Rightarrow> parse_lines lib lines out
               | Some d \<Rightarrow>
                   (case to_float lib (parts ! 4) of
                      None \<Rightarrow> parse_lines lib lines out
                    | Some c \<Rightarrow> parse_lines lib lines (out @ [\<lparr>row_date = d, close = c\<rparr>]))))"

text \<open>The loop over the candidates; falling out of it returns the empty list.\<close>

fun fetch_candidates :: "client \<Rightarrow> pylib \<Rightarrow> string list \<Rightarrow> py_error + price_row list" where
  "fetch_candidates get lib [] = Inr []"
| "fetch_candidates get lib (cand # cands) =
     (case get (stooq_url cand) of
        Inl e \<Rightarrow> Inl e
      | Inr resp \<Rightarrow>
          (let body = resp_text resp
           in if status_code resp = 200 \<and> contains CSV_HEADER body
              then (let lines = splitlines (strip body)
                    in if length lines \<le> 1 then fetch_candidates get lib cands
                       else (let out = parse_lines lib (tl lines) []
                             in if out \<noteq> [] then Inr (sort_key row_date out)
                                else fetch_candidates get lib cands))
              else fetch_candidates get lib cands))"

definition fetch_stooq_history :: "client \<Rightarrow> pylib \<Rightarrow> string \<Rightarrow> py_error + price_row list" where
  "fetch_stooq_history get lib symbol =
     fetch_candidates get lib [lower symbol, lower symbol @ ''.us'']"

text \<open>
  The loop of \<^verbatim>\<open>simulate_gbm\<close> over \<^verbatim>\<open>enumerate(dates)\<close>: the first date takes the start
  price, each later one a new draw. The parameters are the fixed defaults, for which
  the shock of a draw \<open>z\<close> is about \<open>0.0002 + 0.0126 * z\<close>, and \<^verbatim>\<open>random.gauss\<close> yields no
  draw beyond 9 in absolute value, so \<^verbatim>\<open>math.exp\<close> is in range on every shock of this
  loop and is the exponential.
\<close>

fun gbm_loop ::
  "(nat \<times> date) list \<Rightarrow> real \<Rightarrow> real \<Rightarrow> real \<Rightarrow> real \<Rightarrow> price_row list \<Rightarrow> rng
     \<Rightarrow> price_row list \<times> rng" where
  "gbm_loop [] mu sigma dt price series g = (series, g)"
| "gbm_loop ((i, d) # rest) mu sigma dt price series g =
     (if i = 0 then gbm_loop rest mu sigma dt price (series @ [\<lparr>row_date = d, close = price\<rparr>]) g
      else (let (shock, g') = gauss ((mu - 0.5 * sigma * sigma) * dt) (sigma * sqrt dt) g;
                price' = price * exp shock
            in gbm_loop rest mu sigma dt price' (series @ [\<lparr>row_date = d, close = price'\<rparr>]) g'))"

definition simulate_gbm ::
  "date \<Rightarrow> date \<Rightarrow> real \<Rightarrow> real \<Rightarrow> real \<Rightarrow> rng \<Rightarrow> py_error + (price_row list \<times> rng)" where
  "simulate_gbm start end_d start_price mu sigma g =
     (case daterange start end_d of
        Inl e \<Rightarrow> Inl e
      | Inr dates \<Rightarrow>
          if dates = [] then Inr ([], g)
          else Inr (gbm_loop (enumerate 0 dates) mu sigma (1 / 252) start_price [] g))"

text \<open>The call \<^verbatim>\<open>simulate_gbm(start, end)\<close> with its default arguments.\<close>

definition fallback :: "date \<Rightarrow> date \<Rightarrow> rng \<Rightarrow> py_error + (price_row list \<times> rng)" where
  "fallback start end_d g = simulate_gbm start end_d 100 0.07 0.2 g"

text \<open>
  The body of the \<^verbatim>\<open>try\<close> in \<^verbatim>\<open>get_price_history\<close>: fetch, keep the rows in
  \<^verbatim>\<open>[start, end]\<close>, simulate when none is left.
\<close>

definition try_fetch ::
  "client \<Rightarrow> pylib \<Rightarrow> string \<Rightarrow> date \<Rightarrow> date \<Rightarrow> rng \<Rightarrow> py_error + (price_row list \<times> rng)" where
  "try_fetch get lib symbol start end_d g =
     (case fetch_stooq_history get lib symbol of
        Inl e \<Rightarrow> Inl e
      | Inr fetched \<Rightarrow>
          (let series = filter (\<lambda>row. start \<le> row_date row \<and> row_date row \<le> end_d) fetched
           in if series = [] then fallback start end_d g else Inr (series, g)))"

text \<open>
  \<^verbatim>\<open>try: ... except Exception: series = simulate_gbm(start, end)\<close>. Nothing in the
  \<^verbatim>\<open>try\<close> raises after a draw has been made: \<^verbatim>\<open>simulate_gbm\<close> raises in
  \<^verbatim>\<open>daterange\<close> only, before its first draw, so the handler starts from the generator
  as the \<^verbatim>\<open>try\<close> found it.
\<close>

definition series_for ::
  "client \<Rightarrow> pylib \<Rightarrow> string \<Rightarrow> date \<Rightarrow> date \<Rightarrow> rng \<Rightarrow> py_error + (price_row list \<times> rng)" where
  "series_for get lib symbol start end_d g =
     (case try_fetch get lib symbol start end_d g of
        Inl e \<Rightarrow> fallback start end_d g
      | Inr r \<Rightarrow> Inr r)"

text \<open>
  The loop of \<^verbatim>\<open>get_price_history\<close> over the symbols. \<open>net i\<close> is the network as the
  fetch for the symbol at position \<open>i\<close> finds it; \<^verbatim>\<open>results[sym] = series\<close> is
  \<open>AList.update\<close>, which replaces the value of a key in place and appends a new key.
\<close>

fun price_history_loop ::
  "(nat \<Rightarrow> client) \<Rightarrow> pylib \<Rightarrow> nat \<Rightarrow> string list \<Rightarrow> date \<Rightarrow> date
     \<Rightarrow> (string \<times> price_row list) list \<Rightarrow> rng
     \<Rightarrow> py_error + ((string \<times> price_row list) list \<times> rng)" where
  "price_history_loop net lib i [] start end_d results g = Inr (results, g)"
| "price_history_loop net lib i (symbol # symbols) start end_d results g =
     (case series_for (net i) lib symbol start end_d g of
        Inl e \<Rightarrow> Inl e
      | Inr (series, g') \<Rightarrow>
          price_history_loop net lib (Suc i) symbols start end_d (AList.update symbol series results) g')"

definition get_price_history ::
  "(nat \<Rightarrow> client) \<Rightarrow> pylib \<Rightarrow> rng \<Rightarrow> string list \<Rightarrow> date \<Rightarrow> date
     \<Rightarrow> py_error + ((string \<times> price_row list) list \<times> rng)" where
  "get_price_history net lib g symbols start end_d =
     price_history_loop net lib 0 symbols start end_d [] g"


subsection \<open>Python list primitives\<close>


text \<open>\<^verbatim>\<open>int(x)\<close> on a float: truncation towards zero.\<close>

definition py_int :: "real \<Rightarrow> int" where
  "py_int x = (if 0 \<le> x then \<lfloor>x\<rfloor> else \<lceil>x\<rceil>)"




subsection \<open>main.py: portfolio value\<close>


text \<open>
  Lines 84-88 of main.py, the price of one symbol on day \<open>d\<close>:
  \<^verbatim>\<open>price = 0.0; for row in reversed(series): if row["date"] <= d: price = float(row["close"]); break\<close>.
\<close>

fun scan_rows :: "price_row list \<Rightarrow> date \<Rightarrow> real" where
  "scan_rows [] d = 0"
| "scan_rows (row # rows) d = (if row_date row \<le> d then close row else scan_rows rows d)"

definition last_price_at_or_before :: "price_row list \<Rightarrow> date \<Rightarrow> real" where
  "last_price_at_or_before series d = scan_rows (rev series) d"




subsection \<open>main.py: cashflow\<close>

record cashflow_point =
  cf_date :: date
  cf_income :: real
  cf_expense :: real
  cf_net :: real

definition list_transactions :: "transaction list \<Rightarrow> int option \<Rightarrow> transaction list" where
  "list_transactions db uid =
     sort_key (\<lambda>t. (txn_date t, txn_id t))
       (case uid of None \<Rightarrow> db | Some u \<Rightarrow> filter (\<lambda>t. user_id t = u) db)"

text \<open>The attribute \<^verbatim>\<open>t.amount\<close> of a row read through the ORM.\<close>

definition orm_amount :: "transaction \<Rightarrow> real" where
  "orm_amount t = to_decimal 2 (amount t)"

text \<open>
  The dict \<^verbatim>\<open>monthly\<close>, from \<^verbatim>\<open>(year, month)\<close> to the pair of the running income and
  expense, and the loop that fills it.
\<close>

type_synonym monthly = "((int \<times> int) \<times> (real \<times> real)) list"

fun monthly_loop :: "transaction list \<Rightarrow> monthly \<Rightarrow> monthly" where
  "monthly_loop [] monthly = monthly"
| "monthly_loop (t # txns) monthly =
     (if txn_type t \<noteq> ''income'' \<and> txn_type t \<noteq> ''expense'' then monthly_loop txns monthly
      else
        (let key = (year_of (txn_date t), month_of (txn_date t));
             monthly = (case map_of monthly key of
                          None \<Rightarrow> AList.update key (0, 0) monthly
                        | Some b \<Rightarrow> monthly);
             monthly = (if txn_type t = ''income''
                        then AList.map_entry key (\<lambda>(i, e). (i + orm_amount t, e)) monthly
                        else AList.map_entry key (\<lambda>(i, e). (i, e + orm_amount t)) monthly)
         in monthly_loop txns monthly))"

fun cashflow_points ::
  "(int \<times> int) list \<Rightarrow> monthly \<Rightarrow> cashflow_point list \<Rightarrow> py_error + cashflow_point list" where
  "cashflow_points [] monthly points = Inr points"
| "cashflow_points ((y, m) # keys) monthly points =
     (case map_of monthly (y, m) of
        None \<Rightarrow> Inl KeyError
      | Some (inc, expn) \<Rightarrow>
          (case mk_date y m 1 of
             Inl e \<Rightarrow> Inl e
           | Inr d \<Rightarrow>
               cashflow_points keys monthly
                 (points @ [\<lparr>cf_date = d, cf_income = inc, cf_expense = expn, cf_net = inc - expn\<rparr>])))"

definition cashflow :: "transaction list \<Rightarrow> int \<Rightarrow> py_error + cashflow_point list" where
  "cashflow db uid =
     (let txns = list_transactions db (Some uid)
      in if txns = [] then Inr []
         else (let monthly = monthly_loop txns []
               in cashflow_points (sort (map fst monthly)) monthly []))"

subsection \<open>main.py: allocation\<close>




subsection \<open>main.py: Monte Carlo\<close>



text \<open>
  \<^verbatim>\<open>math.exp(x)\<close>: the exponential, or \<^verbatim>\<open>OverflowError\<close> when it is beyond every
  double, that is from \<open>2 ^ 1024\<close> on (for \<open>x\<close> above about 709.78).
\<close>

definition math_exp :: "real \<Rightarrow> py_error + real" where
  "math_exp x = (if exp x < 2 ^ 1024 then Inr (exp x) else Inl OverflowError)"










subsection \<open>Notions used to state the properties of the analytics\<close>

text \<open>
  The binary64 values of the literals \<^verbatim>\<open>0.10\<close> and \<^verbatim>\<open>0.90\<close>, for the lemmas on the
  rounded index arithmetic.
\<close>

definition DOUBLE_0_10 :: real where
  "DOUBLE_0_10 = 3602879701896397 / 36028797018963968"

definition DOUBLE_0_90 :: real where
  "DOUBLE_0_90 = 8106479329266893 / 9007199254740992"





text \<open>
  The month of a transaction, the total of one type of a user's transactions in a
  month (of their amounts as the ORM reads them), and the months in which the user has
  an income or expense transaction, in ascending order.
\<close>

definition month_key :: "transaction \<Rightarrow> int \<times> int" where
  "month_key t = (year_of (txn_date t), month_of (txn_date t))"

definition month_total :: "transaction list \<Rightarrow> int \<Rightarrow> string \<Rightarrow> int \<times> int \<Rightarrow> real" where
  "month_total db uid ty k =
     sum_list (map orm_amount (filter (\<lambda>t. user_id t = uid \<and> txn_type t = ty \<and> month_key t = k) db))"

definition cashflow_months :: "transaction list \<Rightarrow> int \<Rightarrow> (int \<times> int) list" where
  "cashflow_months db uid =
     sorted_list_of_set (month_key ` {t \<in> set db. user_id t = uid
                                        \<and> (txn_type t = ''income'' \<or> txn_type t = ''expense'')})"

subsection \<open>Notions used to state the properties of the price history\<close>

text \<open>
  The rows of a series inside the window; whether the retrieval for a symbol failed
  (the fetch raised, or no fetched row lies in the window); the real series of a symbol;
  the generator after \<open>k\<close> more draws; the series the fallback builds from a generator;
  the number of draws the fallbacks of the symbols before position \<open>i\<close> consume; and the
  entry of a symbol in the outcome of \<^verbatim>\<open>get_price_history\<close>.
\<close>

definition in_range :: "date \<Rightarrow> date \<Rightarrow> price_row list \<Rightarrow> price_row list" where
  "in_range start end_d rows = filter (\<lambda>row. start \<le> row_date row \<and> row_date row \<le> end_d) rows"

definition retrieval_failed :: "client \<Rightarrow> pylib \<Rightarrow> string \<Rightarrow> date \<Rightarrow> date \<Rightarrow> bool" where
  "retrieval_failed get lib symbol start end_d =
     (case fetch_stooq_history get lib symbol of
        Inl e \<Rightarrow> True
      | Inr rows \<Rightarrow> in_range start end_d rows = [])"

definition real_series :: "client \<Rightarrow> pylib \<Rightarrow> string \<Rightarrow> date \<Rightarrow> date \<Rightarrow> price_row list" where
  "real_series get lib symbol start end_d =
     in_range start end_d (case fetch_stooq_history get lib symbol of Inl e \<Rightarrow> [] | Inr rows \<Rightarrow> rows)"

definition advance :: "nat \<Rightarrow> rng \<Rightarrow> rng" where
  "advance k g = (\<lambda>i. g (i + k))"

definition fallback_series :: "date \<Rightarrow> date \<Rightarrow> rng \<Rightarrow> price_row list" where
  "fallback_series start end_d g =
     (case fallback start end_d g of Inl e \<Rightarrow> [] | Inr (series, g') \<Rightarrow> series)"

definition draws_before ::
  "(nat \<Rightarrow> client) \<Rightarrow> pylib \<Rightarrow> string list \<Rightarrow> date \<Rightarrow> date \<Rightarrow> nat \<Rightarrow> nat" where
  "draws_before net lib symbols start end_d i =
     length (filter (\<lambda>j. retrieval_failed (net j) lib (symbols ! j) start end_d) [0..<i])
       * nat (end_d - start)"

definition entry_of ::
  "py_error + ((string \<times> price_row list) list \<times> rng) \<Rightarrow> string \<Rightarrow> price_row list option" where
  "entry_of outcome symbol = (case outcome of Inl e \<Rightarrow> None | Inr (results, g) \<Rightarrow> map_of results symbol)"

subsection \<open>A small ledger and market for worked examples\<close>


definition demo_net :: "nat \<Rightarrow> client" where
  "demo_net i url = Inr \<lparr>status_code = 200,
      resp_text = ''Date,Open,High,Low,Close,Volume\<newline>2024-01-02,1,2,0,50,1000\<newline>''\<rparr>"

definition demo_lib :: pylib where
  "demo_lib = \<lparr>strptime = (\<lambda>s. if s = ''2024-01-02'' then Some 738887 else None),
               to_float = (\<lambda>s. if s = ''50'' then Some 50 else None)\<rparr>"




definition demo_draws :: rng where
  "demo_draws i = (if i = 0 then 0 else - 1)"




text \<open>
  A ledger for the cashflow: user 1 has an expense of 30 on 2024-02-10, incomes of 100
  and 50 on 2024-01-05 and 2024-01-20, and a trade; user 2 has an income.
\<close>

definition cashflow_db :: "transaction list" where
  "cashflow_db = [
     \<lparr>txn_id = 1, user_id = 1, txn_date = 738926, txn_type = ''expense'', category = None, amount = 30,
        asset_symbol = None, shares = None, price_at_trade = None\<rparr>,
     \<lparr>txn_id = 2, user_id = 1, txn_date = 738890, txn_type = ''income'', category = None, amount = 100,
        asset_symbol = None, shares = None, price_at_trade = None\<rparr>,
     \<lparr>txn_id = 3, user_id = 1, txn_date = 738905, txn_type = ''income'', category = None, amount = 50,
        asset_symbol = None, shares = None, price_at_trade = None\<rparr>,
     \<lparr>txn_id = 4, user_id = 1, txn_date = 738960, txn_type = ''trade'', category = None, amount = 10,
        asset_symbol = Some ''aapl'', shares = Some 2, price_at_trade = None\<rparr>,
     \<lparr>txn_id = 5, user_id = 2, txn_date = 739000, txn_type = ''income'', category = None, amount = 7,
        asset_symbol = None, shares = None, price_at_trade = None\<rparr>]"

text \<open>
  Two more markets: one where every request raises, and one that answers the fetch for
  the first symbol as the market above does and raises for every later one.
\<close>

definition down_net :: "nat \<Rightarrow> client" where
  "down_net i url = Inl HTTPError"

definition first_up_net :: "nat \<Rightarrow> client" where
  "first_up_net i = (if i = 0 then demo_net 0 else down_net i)"

section \<open>Ledger aggregation\<close>



























section \<open>Price lookup\<close>

lemma scan_rows_filter:
  "scan_rows rows d = (case filter (\<lambda>r. row_date r \<le> d) rows of [] \<Rightarrow> 0 | r # rs \<Rightarrow> close r)"
  by (induction rows) simp_all

lemma lookup_last_filter:
  "last_price_at_or_before series d =
     (if filter (\<lambda>r. row_date r \<le> d) series = [] then 0
      else close (last (filter (\<lambda>r. row_date r \<le> d) series)))"
proof -
  let ?m = "filter (\<lambda>r. row_date r \<le> d) series"
  have "filter (\<lambda>r. row_date r \<le> d) (rev series) = rev ?m"
    by (simp add: rev_filter)
  then show ?thesis
    unfolding last_price_at_or_before_def scan_rows_filter
    by (cases "rev ?m") (auto simp: hd_rev[symmetric] dest: arg_cong[where f = hd])
qed

lemma latest_of_sorted:
  assumes "sorted (map row_date series)" "r \<in> set series" "row_date r \<le> d"
  shows "row_date r \<le> row_date (last (filter (\<lambda>r. row_date r \<le> d) series))"
proof -
  let ?m = "filter (\<lambda>r. row_date r \<le> d) series"
  have s: "sorted (map row_date ?m)"
    using assms(1) by (rule sorted_filter)
  have r: "r \<in> set ?m"
    using assms by simp
  then obtain i where i: "i < length ?m" "?m ! i = r"
    unfolding in_set_conv_nth by blast
  have "?m \<noteq> []" using i(1) by (cases ?m) simp_all
  then have l: "last ?m = ?m ! (length ?m - 1)"
    by (rule last_conv_nth)
  have "map row_date ?m ! i \<le> map row_date ?m ! (length ?m - 1)"
    using s i(1) by (intro sorted_nth_mono) auto
  then show ?thesis
    using i l by simp
qed

text \<open>
  C3. The price lookup of the valuation loop returns the close of the last entry of the
  series whose date is at or before the query date, and 0 when there is none. In a
  date-ascending series that entry is the latest one at or before the query date. For
  a series of two entries dated \<open>d1 < d2\<close>, a query date in \<open>[d1, d2)\<close> returns the first
  close and a query date before \<open>d1\<close> returns 0.
\<close>

theorem last_price_lookup:
  "last_price_at_or_before series d =
     (if filter (\<lambda>r. row_date r \<le> d) series = [] then 0
      else close (last (filter (\<lambda>r. row_date r \<le> d) series)))
   \<and> (sorted (map row_date series) \<longrightarrow>
        (\<forall>r \<in> set series. row_date r \<le> d \<longrightarrow>
           row_date r \<le> row_date (last (filter (\<lambda>r. row_date r \<le> d) series))))
   \<and> (d1 < d2 \<and> d1 \<le> q \<and> q < d2 \<longrightarrow>
        last_price_at_or_before [\<lparr>row_date = d1, close = c1\<rparr>, \<lparr>row_date = d2, close = c2\<rparr>] q = c1)
   \<and> (d1 < d2 \<and> q < d1 \<longrightarrow>
        last_price_at_or_before [\<lparr>row_date = d1, close = c1\<rparr>, \<lparr>row_date = d2, close = c2\<rparr>] q = 0)"
  using latest_of_sorted[of series _ d]
  by (auto simp: lookup_last_filter)

theorem last_price_lookup_witness:
  "sorted (map row_date [\<lparr>row_date = 10, close = 5\<rparr>, \<lparr>row_date = 20, close = 7\<rparr>])
   \<and> (10::int) < 20 \<and> (10::int) \<le> 15 \<and> (15::int) < 20
   \<and> last_price_at_or_before [\<lparr>row_date = 10, close = 5\<rparr>, \<lparr>row_date = 20, close = 7\<rparr>] 15 = 5
   \<and> (3::int) < 10
   \<and> last_price_at_or_before [\<lparr>row_date = 10, close = 5\<rparr>, \<lparr>row_date = 20, close = 7\<rparr>] 3 = 0
   \<and> row_date \<lparr>row_date = 10, close = 5\<rparr>
       \<le> row_date (last (filter (\<lambda>r. row_date r \<le> 15) [\<lparr>row_date = 10, close = 5\<rparr>, \<lparr>row_date = 20, close = 7\<rparr>]))"
  using last_price_lookup[of "[\<lparr>row_date = 10, close = 5\<rparr>, \<lparr>row_date = 20, close = 7\<rparr>]" 15 10 20 15 5 7]
        last_price_lookup[of "[\<lparr>row_date = 10, close = 5\<rparr>, \<lparr>row_date = 20, close = 7\<rparr>]" 3 10 20 3 5 7]
  by simp

section \<open>The calendar\<close>

lemma year_count_bound:
  fixes q400 q100 q4 q1 r400 r100 r4 r1 :: int
  assumes "146097 * q400 + r400 \<le> 3652058"
    and "r400 = 36524 * q100 + r100" "r100 = 1461 * q4 + r4" "r4 = 365 * q1 + r1"
    and "0 \<le> q400" "0 \<le> q100" "0 \<le> q4" "0 \<le> q1" "0 \<le> r1"
    and "r400 < 146097" "r100 < 36524" "r4 < 1461"
  shows "400 * q400 + 100 * q100 + 4 * q4 + q1 \<le> 9998"
proof -
  have u: "q400 \<le> 24" "q100 \<le> 4" "q4 \<le> 24" "q1 \<le> 4"
    using assms by linarith+
  show ?thesis
  proof (cases "q400 \<le> 23")
    case True
    with u show ?thesis by linarith
  next
    case False
    with u have q400: "q400 = 24" by linarith
    show ?thesis
    proof (cases "q100 \<le> 2")
      case True
      with u q400 show ?thesis by linarith
    next
      case False
      have "q100 \<le> 3" using assms q400 by linarith
      with False have q100: "q100 = 3" by linarith
      show ?thesis
      proof (cases "q4 \<le> 23")
        case True
        with u q400 q100 show ?thesis by linarith
      next
        case False
        with u have q4: "q4 = 24" by linarith
        have "q1 \<le> 2" using assms q400 q100 q4 by linarith
        with q400 q100 q4 show ?thesis by linarith
      qed
    qed
  qed
qed


lemma fst_ord2ymd:
  "fst (ord2ymd d) =
     (let n = d - 1;
          n400 = n div 146097; n = n mod 146097;
          year = n400 * 400 + 1;
          n100 = n div 36524; n = n mod 36524;
          n4 = n div 1461; n = n mod 1461;
          n1 = n div 365;
          year = year + n100 * 100 + n4 * 4 + n1
      in if n1 = 4 \<or> n100 = 4 then year - 1 else year)"
  unfolding ord2ymd_def Let_def
  by (simp only: if_distrib[of fst] fst_conv if_cancel)


lemma year_of_bounds:
  assumes "valid_date d"
  shows "1 \<le> year_of d \<and> year_of d \<le> 9999"
proof -
  define n where "n = d - 1"
  define q400 where "q400 = n div 146097"
  define r400 where "r400 = n mod 146097"
  define q100 where "q100 = r400 div 36524"
  define r100 where "r100 = r400 mod 36524"
  define q4 where "q4 = r100 div 1461"
  define r4 where "r4 = r100 mod 1461"
  define q1 where "q1 = r4 div 365"
  define r1 where "r1 = r4 mod 365"
  have n: "0 \<le> n" "n \<le> 3652058"
    using assms by (simp_all add: valid_date_def MAXORDINAL_def n_def)
  have a: "146097 * q400 + r400 = n" "0 \<le> r400" "r400 < 146097"
    by (simp_all add: q400_def r400_def)
  have b: "r400 = 36524 * q100 + r100" "0 \<le> r100" "r100 < 36524"
    by (simp_all add: q100_def r100_def)
  have c: "r100 = 1461 * q4 + r4" "0 \<le> r4" "r4 < 1461"
    by (simp_all add: q4_def r4_def)
  have d: "r4 = 365 * q1 + r1" "0 \<le> r1" "r1 < 365"
    by (simp_all add: q1_def r1_def)
  have q: "0 \<le> q400" "0 \<le> q100" "0 \<le> q4" "0 \<le> q1"
    unfolding q400_def q100_def q4_def q1_def
    using n(1) a(2) b(2) c(2) by (simp_all only: pos_imp_zdiv_nonneg_iff)
  have "146097 * q400 + r400 \<le> 3652058"
    unfolding a(1) by (rule n(2))
  from year_count_bound[OF this b(1) c(1) d(1) q d(2) a(3) b(3) c(3)]
  have y: "400 * q400 + 100 * q100 + 4 * q4 + q1 \<le> 9998" .
  have "year_of d = (if q1 = 4 \<or> q100 = 4 then q400 * 400 + 1 + q100 * 100 + q4 * 4 + q1 - 1
                     else q400 * 400 + 1 + q100 * 100 + q4 * 4 + q1)"
    unfolding year_of_def fst_ord2ymd Let_def q1_def r4_def q4_def r100_def q100_def r400_def q400_def n_def ..
  moreover have "1 \<le> q400 * 400 + 1 + q100 * 100 + q4 * 4 + q1"
    using q by linarith
  moreover have "q400 * 400 + 1 + q100 * 100 + q4 * 4 + q1 \<le> 9999"
    using y by linarith
  moreover have "1 \<le> q400 * 400 + 1 + q100 * 100 + q4 * 4 + q1 - 1" if "q1 = 4 \<or> q100 = 4"
    using q that by linarith
  ultimately show ?thesis
    by (simp split: if_splits)
qed

lemma month_pick_bounds:
  assumes "0 \<le> r" "r < 365"
  shows "1 \<le> (if DAYS_BEFORE_MONTH ! nat ((r + 50) div 32)
                   + (if (r + 50) div 32 > 2 \<and> leap then 1 else 0) > r
                then (r + 50) div 32 - 1 else (r + 50) div 32)
       \<and> (if DAYS_BEFORE_MONTH ! nat ((r + 50) div 32)
                   + (if (r + 50) div 32 > 2 \<and> leap then 1 else 0) > r
                then (r + 50) div 32 - 1 else (r + 50) div 32) \<le> 12"
proof -
  define m where "m = (r + 50) div 32"
  have m: "1 \<le> m" "m \<le> 12"
    unfolding m_def using assms by linarith+
  have "\<not> (DAYS_BEFORE_MONTH ! nat m + (if m > 2 \<and> leap then 1 else 0) > r)" if "m = 1"
    using that assms by (simp add: DAYS_BEFORE_MONTH_def)
  then show ?thesis
    unfolding m_def[symmetric] using m by (cases "m = 1") auto
qed

lemma month_ord2ymd:
  "fst (snd (ord2ymd d)) =
     (let n = d - 1;
          n400 = n div 146097; n = n mod 146097;
          n100 = n div 36524; n = n mod 36524;
          n4 = n div 1461; n = n mod 1461;
          n1 = n div 365; n = n mod 365
      in if n1 = 4 \<or> n100 = 4 then 12
         else (if DAYS_BEFORE_MONTH ! nat ((n + 50) div 32)
                   + (if (n + 50) div 32 > 2 \<and> (n1 = 3 \<and> (n4 \<noteq> 24 \<or> n100 = 3)) then 1 else 0) > n
               then (n + 50) div 32 - 1 else (n + 50) div 32))"
  unfolding ord2ymd_def Let_def
  by (simp only: if_distrib[of fst] if_distrib[of snd] fst_conv snd_conv)

lemma month_of_bounds: "1 \<le> month_of d \<and> month_of d \<le> 12"
proof -
  define r where "r = (((d - 1) mod 146097) mod 36524) mod 1461 mod 365"
  have r: "0 \<le> r" "r < 365" by (simp_all add: r_def)
  show ?thesis
    unfolding month_of_def month_ord2ymd Let_def r_def[symmetric]
    using month_pick_bounds[OF r] by (simp split: if_splits)
qed

lemma mk_date_first_of_month:
  assumes "valid_date d"
  shows "mk_date (year_of d) (month_of d) 1 = Inr (ymd2ord (year_of d) (month_of d) 1)"
proof -
  have m: "1 \<le> month_of d" "month_of d \<le> 12"
    using month_of_bounds[of d] by simp_all
  then have "month_of d \<in> {1, 2, 3, 4, 5, 6, 7, 8, 9, 10, 11, 12}"
    by simp arith
  then have "1 \<le> days_in_month (year_of d) (month_of d)"
    by (auto simp: days_in_month_def DAYS_IN_MONTH_def)
  then show ?thesis
    using m year_of_bounds[OF assms] by (simp add: mk_date_def)
qed

section \<open>Monthly cashflow\<close>

lemma monthly_loop_lookup:
  assumes "distinct (map fst m)"
  shows "distinct (map fst (monthly_loop txns m)) \<and>
     map_of (monthly_loop txns m) k =
       (if map_of m k = None
           \<and> \<not> (\<exists>t \<in> set txns. (txn_type t = ''income'' \<or> txn_type t = ''expense'') \<and> month_key t = k)
        then None
        else Some (fst (dict_get m k (0, 0))
                     + sum_list (map orm_amount (filter (\<lambda>t. txn_type t = ''income'' \<and> month_key t = k) txns)),
                   snd (dict_get m k (0, 0))
                     + sum_list (map orm_amount (filter (\<lambda>t. txn_type t = ''expense'' \<and> month_key t = k) txns))))"
  using assms
proof (induction txns arbitrary: m)
  case Nil
  then show ?case by (auto simp: dict_get_def)
next
  case (Cons t txns)
  show ?case
  proof (cases "txn_type t \<noteq> ''income'' \<and> txn_type t \<noteq> ''expense''")
    case True
    with Cons.IH[OF Cons.prems] show ?thesis by auto
  next
    case False
    define key where "key = month_key t"
    define m1 where "m1 = (case map_of m key of None \<Rightarrow> AList.update key (0, 0) m | Some b \<Rightarrow> m)"
    define f where "f = (if txn_type t = ''income'' then (\<lambda>(i, e). (i + orm_amount t, e))
                         else (\<lambda>(i, e :: real). (i, e + orm_amount t)))"
    define m2 where "m2 = AList.map_entry key f m1"
    have step: "monthly_loop (t # txns) m = monthly_loop txns m2"
      unfolding m2_def m1_def f_def key_def month_key_def using False by (auto simp: Let_def)
    have d1: "distinct (map fst m1)"
      using Cons.prems by (simp add: m1_def distinct_update split: option.splits)
    then have d2: "distinct (map fst m2)"
      by (simp add: m2_def distinct_map_entry)
    have l1: "map_of m1 = (map_of m)(key \<mapsto> dict_get m key (0, 0))"
      by (auto simp: m1_def dict_get_def update_conv' split: option.splits)
    have l2: "map_of m2 = (map_of m)(key \<mapsto> f (dict_get m key (0, 0)))"
      by (auto simp: m2_def map_of_map_entry l1)
    show ?thesis
      unfolding step using Cons.IH[OF d2] False
      by (auto simp: l2 dict_get_def f_def key_def split: option.splits prod.splits)
  qed
qed


lemma cashflow_points_total:
  assumes "\<forall>k \<in> set keys. map_of monthly k \<noteq> None
                \<and> mk_date (fst k) (snd k) 1 = Inr (ymd2ord (fst k) (snd k) 1)"
  shows "cashflow_points keys monthly points =
     Inr (points @ map (\<lambda>k. \<lparr>cf_date = ymd2ord (fst k) (snd k) 1,
                              cf_income = fst (dict_get monthly k (0, 0)),
                              cf_expense = snd (dict_get monthly k (0, 0)),
                              cf_net = fst (dict_get monthly k (0, 0)) - snd (dict_get monthly k (0, 0))\<rparr>)
                    keys)"
  using assms
proof (induction keys arbitrary: points)
  case Nil
  show ?case by simp
next
  case (Cons k keys)
  obtain y m where k: "k = (y, m)" by (cases k)
  from Cons.prems k obtain i e where v: "map_of monthly (y, m) = Some (i, e)"
    by auto
  from Cons.prems k have d: "mk_date y m 1 = Inr (ymd2ord y m 1)"
    by simp
  from Cons.prems have "\<forall>k \<in> set keys. map_of monthly k \<noteq> None
                \<and> mk_date (fst k) (snd k) 1 = Inr (ymd2ord (fst k) (snd k) 1)"
    by simp
  from Cons.IH[OF this] show ?case
    by (simp add: k v d dict_get_def)
qed

lemma sum_insort_key:
  "sum_list (map f (filter P (insort_key g x xs))) = sum_list (map f (filter P (x # xs)))"
  for f :: "'a \<Rightarrow> real"
  by (induction xs) (auto simp: algebra_simps)

lemma sum_sort_key:
  "sum_list (map f (filter P (sort_key g xs))) = sum_list (map f (filter P xs))"
  for f :: "'a \<Rightarrow> real"
proof (induction xs)
  case Nil
  show ?case by simp
next
  case (Cons x xs)
  have "sort_key g (x # xs) = insort_key g x (sort_key g xs)"
    by (simp add: sort_key_def)
  then show ?case
    using Cons by (simp only: sum_insort_key) simp
qed

lemma sort_distinct_keys:
  "distinct ks \<Longrightarrow> sort ks = sorted_list_of_set (set ks)"
  by (simp add: sorted_list_of_set_sort_remdups distinct_remdups_id)


text \<open>
  C7. For a user whose transactions carry dates of the calendar, the cashflow is one
  point per month in which the user has an income or expense transaction, in ascending
  order of (year, month) and with no other month: the point is dated the first of the
  month and holds the total income, the total expense and their difference, income
  minus expense. Trades and transfers add to no bucket, and the empty table gives the
  empty sequence.
\<close>

theorem cashflow_monthly_buckets:
  assumes "\<forall>t \<in> set db. user_id t = uid \<longrightarrow> valid_date (txn_date t)"
  shows "cashflow db uid =
       Inr (map (\<lambda>k. \<lparr>cf_date = ymd2ord (fst k) (snd k) 1,
                       cf_income = month_total db uid ''income'' k,
                       cf_expense = month_total db uid ''expense'' k,
                       cf_net = month_total db uid ''income'' k - month_total db uid ''expense'' k\<rparr>)
              (cashflow_months db uid))
     \<and> sorted_wrt (<) (cashflow_months db uid)
     \<and> set (cashflow_months db uid)
         = month_key ` {t \<in> set db. user_id t = uid \<and> (txn_type t = ''income'' \<or> txn_type t = ''expense'')}
     \<and> cashflow [] uid = Inr []"
proof -
  let ?rel = "\<lambda>t. txn_type t = ''income'' \<or> txn_type t = ''expense''"
  let ?K = "month_key ` {t \<in> set db. user_id t = uid \<and> ?rel t}"
  define txns where "txns = list_transactions db (Some uid)"
  define monthly where "monthly = monthly_loop txns []"
  have set_txns: "set txns = {t \<in> set db. user_id t = uid}"
    by (auto simp: txns_def list_transactions_def)
  have fin: "finite ?K" by simp
  have months: "set (cashflow_months db uid) = ?K" "sorted_wrt (<) (cashflow_months db uid)"
    unfolding cashflow_months_def using fin
    by (simp_all add: strict_sorted_iff del: set_filter)
  have look: "distinct (map fst monthly)"
    "\<And>k. map_of monthly k =
       (if \<not> (\<exists>t \<in> set txns. ?rel t \<and> month_key t = k) then None
        else Some (sum_list (map orm_amount (filter (\<lambda>t. txn_type t = ''income'' \<and> month_key t = k) txns)),
                   sum_list (map orm_amount (filter (\<lambda>t. txn_type t = ''expense'' \<and> month_key t = k) txns))))"
    using monthly_loop_lookup[of "[]" txns] by (simp_all add: monthly_def dict_get_def)
  have totals: "sum_list (map orm_amount (filter (\<lambda>t. txn_type t = ty \<and> month_key t = k) txns))
                  = month_total db uid ty k" for ty k
  proof -
    have "(\<lambda>x. user_id x = uid \<and> txn_type x = ty \<and> month_key x = k)
            = (\<lambda>x. user_id x = uid \<and> (txn_type x = ty \<and> month_key x = k))" by auto
    then show ?thesis
      by (simp add: txns_def list_transactions_def sum_sort_key month_total_def)
  qed
  have dom: "set (map fst monthly) = ?K"
  proof -
    have "set (map fst monthly) = dom (map_of monthly)"
      by (simp add: dom_map_of_conv_image_fst)
    also have "\<dots> = ?K"
      by (auto simp: dom_def look(2) set_txns image_iff) metis+
    finally show ?thesis .
  qed
  have keys: "sort (map fst monthly) = cashflow_months db uid"
    using look(1) by (simp only: sort_distinct_keys dom cashflow_months_def)
  have ok: "\<forall>k \<in> set (cashflow_months db uid). map_of monthly k \<noteq> None
                \<and> mk_date (fst k) (snd k) 1 = Inr (ymd2ord (fst k) (snd k) 1)"
  proof
    fix k assume "k \<in> set (cashflow_months db uid)"
    then obtain t where t: "t \<in> set db" "user_id t = uid" "?rel t" "k = month_key t"
      unfolding months(1) by auto
    then have "valid_date (txn_date t)" using assms by simp
    from mk_date_first_of_month[OF this] have "mk_date (fst k) (snd k) 1 = Inr (ymd2ord (fst k) (snd k) 1)"
      by (simp add: t(4) month_key_def)
    moreover have "map_of monthly k \<noteq> None"
      using t by (auto simp: look(2) set_txns)
    ultimately show "map_of monthly k \<noteq> None
                \<and> mk_date (fst k) (snd k) 1 = Inr (ymd2ord (fst k) (snd k) 1)" by simp
  qed
  have vals: "dict_get monthly k (0, 0) = (month_total db uid ''income'' k, month_total db uid ''expense'' k)"
    if "k \<in> set (cashflow_months db uid)" for k
  proof -
    from that obtain t where "t \<in> set db" "user_id t = uid" "?rel t" "k = month_key t"
      unfolding months(1) by auto
    then have "\<exists>t \<in> set txns. ?rel t \<and> month_key t = k"
      by (auto simp: set_txns)
    then show ?thesis
      by (simp add: dict_get_def look(2) totals)
  qed
  have main: "cashflow db uid =
       Inr (map (\<lambda>k. \<lparr>cf_date = ymd2ord (fst k) (snd k) 1,
                       cf_income = month_total db uid ''income'' k,
                       cf_expense = month_total db uid ''expense'' k,
                       cf_net = month_total db uid ''income'' k - month_total db uid ''expense'' k\<rparr>)
              (cashflow_months db uid))"
  proof (cases "txns = []")
    case True
    then have "?K = {}" using set_txns by auto
    then have "cashflow_months db uid = []"
      by (simp add: cashflow_months_def del: set_filter)
    with True show ?thesis
      by (simp add: cashflow_def txns_def[symmetric])
  next
    case False
    then have "cashflow db uid = cashflow_points (cashflow_months db uid) monthly []"
      by (simp add: cashflow_def txns_def[symmetric] Let_def monthly_def[symmetric] keys)
    also have "\<dots> = Inr ([] @ map (\<lambda>k. \<lparr>cf_date = ymd2ord (fst k) (snd k) 1,
                              cf_income = fst (dict_get monthly k (0, 0)),
                              cf_expense = snd (dict_get monthly k (0, 0)),
                              cf_net = fst (dict_get monthly k (0, 0)) - snd (dict_get monthly k (0, 0))\<rparr>)
                    (cashflow_months db uid))"
      by (rule cashflow_points_total[OF ok])
    also have "\<dots> = Inr (map (\<lambda>k. \<lparr>cf_date = ymd2ord (fst k) (snd k) 1,
                       cf_income = month_total db uid ''income'' k,
                       cf_expense = month_total db uid ''expense'' k,
                       cf_net = month_total db uid ''income'' k - month_total db uid ''expense'' k\<rparr>)
              (cashflow_months db uid))"
      by (simp add: vals)
    finally show ?thesis .
  qed
  have "cashflow [] uid = Inr []"
    by (simp add: cashflow_def list_transactions_def)
  with main months show ?thesis by simp
qed

lemma cashflow_db_points:
  "cashflow cashflow_db 1 = Inr
     [\<lparr>cf_date = 738886, cf_income = 150, cf_expense = 0, cf_net = 150\<rparr>,
      \<lparr>cf_date = 738917, cf_income = 0, cf_expense = 30, cf_net = - 30\<rparr>]"
  by code_simp

lemma cashflow_db_months: "cashflow_months cashflow_db 1 = [(2024, 1), (2024, 2)]"
  by code_simp

theorem cashflow_monthly_buckets_witness:
  "list_all (\<lambda>t. valid_date (txn_date t)) cashflow_db
   \<and> cashflow_months cashflow_db 1 = [(2024, 1), (2024, 2)]
   \<and> cashflow cashflow_db 1 = Inr
        [\<lparr>cf_date = 738886, cf_income = 150, cf_expense = 0, cf_net = 150\<rparr>,
         \<lparr>cf_date = 738917, cf_income = 0, cf_expense = 30, cf_net = - 30\<rparr>]
   \<and> month_total cashflow_db 1 ''income'' (2024, 1) = 150
   \<and> month_total cashflow_db 1 ''expense'' (2024, 2) = 30"
proof -
  have h: "\<forall>t \<in> set cashflow_db. user_id t = 1 \<longrightarrow> valid_date (txn_date t)"
    by (simp add: cashflow_db_def valid_date_def MAXORDINAL_def)
  have v: "list_all (\<lambda>t. valid_date (txn_date t)) cashflow_db"
    by (simp add: cashflow_db_def valid_date_def MAXORDINAL_def)
  show ?thesis
    using cashflow_monthly_buckets[OF h] v
    by (simp add: cashflow_db_points cashflow_db_months)
qed

section \<open>The example market\<close>

lemma demo_fetch_aapl: "fetch_stooq_history (demo_net i) demo_lib ''aapl'' = Inr [\<lparr>row_date = 738887, close = 50\<rparr>]"
  unfolding demo_net_def by code_simp




section \<open>Price history\<close>

lemma range_loop_days:
  "0 \<le> cur \<Longrightarrow> end_d < MAXORDINAL \<Longrightarrow> range_loop cur end_d res = Inr (res @ [cur..end_d])"
proof (induction cur end_d res rule: range_loop.induct)
  case (1 cur end_d res)
  show ?case
  proof (cases "cur \<le> end_d")
    case True
    then have a: "date_add cur 1 = Inr (cur + 1)"
      using "1.prems" by (simp add: date_add_def)
    have "range_loop cur end_d res = range_loop (cur + 1) end_d (res @ [cur])"
      using True a by (simp add: range_loop.simps[of cur])
    also have "\<dots> = Inr ((res @ [cur]) @ [cur + 1..end_d])"
      using "1.IH"[OF True a] "1.prems" by simp
    finally show ?thesis
      using True by (simp add: upto_rec1)
  next
    case False
    then show ?thesis by (simp add: range_loop.simps[of cur])
  qed
qed

lemma range_loop_overflow:
  "0 \<le> cur \<Longrightarrow> cur \<le> MAXORDINAL \<Longrightarrow> MAXORDINAL \<le> end_d \<Longrightarrow>
     range_loop cur end_d res = Inl OverflowError"
proof (induction cur end_d res rule: range_loop.induct)
  case (1 cur end_d res)
  show ?case
  proof (cases "cur = MAXORDINAL")
    case True
    then have "date_add cur 1 = Inl OverflowError"
      by (simp add: date_add_def)
    moreover have "cur \<le> end_d" using "1.prems" by simp
    ultimately show ?thesis
      by (subst range_loop.simps) simp
  next
    case False
    then have a: "date_add cur 1 = Inr (cur + 1)"
      using "1.prems" by (simp add: date_add_def)
    have le: "cur \<le> end_d" using "1.prems" by simp
    have "range_loop cur end_d res = range_loop (cur + 1) end_d (res @ [cur])"
      using le a by (simp add: range_loop.simps[of cur])
    also have "\<dots> = Inl OverflowError"
      using "1.IH"[OF le a] "1.prems" False by simp
    finally show ?thesis .
  qed
qed


lemma advance_advance: "advance k (advance j g) = advance (j + k) g"
  by (rule ext) (simp add: advance_def algebra_simps)

lemma advance_Suc: "advance k (\<lambda>i. g (Suc i)) = advance (Suc k) g"
  by (simp add: advance_def)

lemma advance_0: "advance 0 g = g"
  by (simp add: advance_def)

lemma gbm_loop_shape:
  "\<exists>rows. gbm_loop ps mu sigma dt price series g
            = (series @ rows, advance (length (filter (\<lambda>p. 0 < fst p) ps)) g)
        \<and> map row_date rows = map snd ps"
proof (induction ps arbitrary: price series g)
  case Nil
  show ?case by (simp add: advance_0)
next
  case (Cons p ps)
  obtain i d where p: "p = (i, d)" by (cases p)
  show ?case
  proof (cases "i = 0")
    case True
    from Cons[of price "series @ [\<lparr>row_date = d, close = price\<rparr>]" g]
    show ?thesis using True p by auto
  next
    case False
    define price' where "price' = price * exp ((mu - 0.5 * sigma * sigma) * dt + g 0 * (sigma * sqrt dt))"
    from Cons[of price' "series @ [\<lparr>row_date = d, close = price'\<rparr>]" "\<lambda>i. g (Suc i)"]
    show ?thesis using False p
      by (auto simp: gauss_def Let_def price'_def advance_Suc)
  qed
qed

lemma enumerate_all_drawn:
  "length (filter (\<lambda>p. 0 < fst p) (enumerate (Suc n) xs)) = length xs"
  by (induction xs arbitrary: n) simp_all

lemma enumerate_drawn:
  "length (filter (\<lambda>p. 0 < fst p) (enumerate 0 xs)) = length xs - 1"
  by (cases xs) (simp_all add: enumerate_all_drawn del: One_nat_def)

lemma fallback_days:
  assumes "0 \<le> start" "end_d < MAXORDINAL"
  shows "fallback start end_d g = Inr (fallback_series start end_d g, advance (nat (end_d - start)) g)
       \<and> map row_date (fallback_series start end_d g) = [start..end_d]"
proof (cases "start \<le> end_d")
  case False
  then have "[start..end_d] = []" by simp
  then show ?thesis
    using False assms
    by (simp add: fallback_series_def fallback_def simulate_gbm_def daterange_def range_loop_days advance_0)
next
  case True
  then have ne: "[start..end_d] \<noteq> []" by simp
  obtain rows where r:
    "gbm_loop (enumerate 0 [start..end_d]) 0.07 0.2 (1 / 252) 100 [] g
       = ([] @ rows, advance (length (filter (\<lambda>p. 0 < fst p) (enumerate 0 [start..end_d]))) g)"
    "map row_date rows = map snd (enumerate 0 [start..end_d])"
    using gbm_loop_shape[of "enumerate 0 [start..end_d]" "0.07" "0.2" "1 / 252" 100 "[]" g] by blast
  have n: "length (filter (\<lambda>p. 0 < fst p) (enumerate 0 [start..end_d])) = nat (end_d - start)"
    using True by (simp add: enumerate_drawn)
  have f: "fallback start end_d g = Inr (rows, advance (nat (end_d - start)) g)"
    using assms ne r(1) unfolding n
    by (simp add: fallback_def simulate_gbm_def daterange_def range_loop_days)
  then show ?thesis
    using r(2) by (simp add: fallback_series_def)
qed

lemma series_for_total:
  assumes "0 \<le> start" "end_d < MAXORDINAL"
  shows "series_for get lib symbol start end_d g =
     Inr (if retrieval_failed get lib symbol start end_d
          then (fallback_series start end_d g, advance (nat (end_d - start)) g)
          else (real_series get lib symbol start end_d, g))"
  using fallback_days[OF assms, of g]
  by (auto simp: series_for_def try_fetch_def retrieval_failed_def real_series_def in_range_def Let_def
           split: sum.splits)

lemma count_upt_Suc:
  "length (filter P [0..<Suc k]) = (if P 0 then 1 else 0) + length (filter (\<lambda>j. P (Suc j)) [0..<k])"
proof -
  have "[0..<Suc k] = 0 # map Suc [0..<k]"
    by (simp add: map_Suc_upt upt_conv_Cons del: upt_Suc)
  then show ?thesis
    by (simp add: filter_map comp_def del: upt_Suc)
qed

lemma price_history_loop_props:
  assumes "0 \<le> start" "end_d < MAXORDINAL"
  shows "\<exists>R G. price_history_loop net lib i syms start end_d results g = Inr (R, G)
     \<and> fst ` set R = fst ` set results \<union> set syms
     \<and> (distinct (map fst results) \<longrightarrow> distinct (map fst R))
     \<and> (\<forall>s. s \<notin> set syms \<longrightarrow> map_of R s = map_of results s)
     \<and> (\<forall>k < length syms. syms ! k \<notin> set (drop (Suc k) syms) \<longrightarrow>
          map_of R (syms ! k) = Some
            (if retrieval_failed (net (i + k)) lib (syms ! k) start end_d
             then fallback_series start end_d
                    (advance (length (filter (\<lambda>j. retrieval_failed (net (i + j)) lib (syms ! j) start end_d)
                                        [0..<k]) * nat (end_d - start)) g)
             else real_series (net (i + k)) lib (syms ! k) start end_d))"
proof (induction syms arbitrary: i results g)
  case Nil
  show ?case by simp
next
  case (Cons s rest)
  let ?F = "\<lambda>j. retrieval_failed (net (i + j)) lib ((s # rest) ! j) start end_d"
  let ?n = "nat (end_d - start)"
  define ser where "ser = (if ?F 0 then fallback_series start end_d g
                           else real_series (net i) lib s start end_d)"
  define g1 where "g1 = (if ?F 0 then advance ?n g else g)"
  have sf: "series_for (net i) lib s start end_d g = Inr (ser, g1)"
    using series_for_total[OF assms, of "net i" lib s g] by (simp add: ser_def g1_def)
  have g1: "g1 = advance ((if ?F 0 then 1 else 0) * ?n) g"
    by (simp add: g1_def advance_0)
  from Cons.IH[of "Suc i" "AList.update s ser results" g1]
  obtain R G where IH:
    "price_history_loop net lib (Suc i) rest start end_d (AList.update s ser results) g1 = Inr (R, G)"
    "fst ` set R = fst ` set (AList.update s ser results) \<union> set rest"
    "distinct (map fst (AList.update s ser results)) \<longrightarrow> distinct (map fst R)"
    "\<forall>s'. s' \<notin> set rest \<longrightarrow> map_of R s' = map_of (AList.update s ser results) s'"
    "\<forall>k < length rest. rest ! k \<notin> set (drop (Suc k) rest) \<longrightarrow>
          map_of R (rest ! k) = Some
            (if retrieval_failed (net (Suc i + k)) lib (rest ! k) start end_d
             then fallback_series start end_d
                    (advance (length (filter (\<lambda>j. retrieval_failed (net (Suc i + j)) lib (rest ! j) start end_d)
                                        [0..<k]) * ?n) g1)
             else real_series (net (Suc i + k)) lib (rest ! k) start end_d)"
    by blast
  have run: "price_history_loop net lib i (s # rest) start end_d results g = Inr (R, G)"
    using sf IH(1) by simp
  have dom: "fst ` set R = fst ` set results \<union> set (s # rest)"
    using IH(2) by (simp add: dom_update)
  have dist: "distinct (map fst results) \<longrightarrow> distinct (map fst R)"
    using IH(3) by (simp add: distinct_update)
  have frame: "\<forall>s'. s' \<notin> set (s # rest) \<longrightarrow> map_of R s' = map_of results s'"
    using IH(4) by (simp add: update_conv')
  have entries: "\<forall>k < length (s # rest). (s # rest) ! k \<notin> set (drop (Suc k) (s # rest)) \<longrightarrow>
          map_of R ((s # rest) ! k) = Some
            (if ?F k
             then fallback_series start end_d (advance (length (filter ?F [0..<k]) * ?n) g)
             else real_series (net (i + k)) lib ((s # rest) ! k) start end_d)"
  proof (intro allI impI)
    fix k assume k: "k < length (s # rest)" and last: "(s # rest) ! k \<notin> set (drop (Suc k) (s # rest))"
    show "map_of R ((s # rest) ! k) = Some
            (if ?F k
             then fallback_series start end_d (advance (length (filter ?F [0..<k]) * ?n) g)
             else real_series (net (i + k)) lib ((s # rest) ! k) start end_d)"
    proof (cases k)
      case 0
      then have "s \<notin> set rest" using last by simp
      then have "map_of R s = Some ser"
        using IH(4) by (simp add: update_conv')
      then show ?thesis
        using 0 by (simp add: ser_def advance_0)
    next
      case (Suc k')
      then have k': "k' < length rest" "rest ! k' \<notin> set (drop (Suc k') rest)"
        using k last by simp_all
      have cnt: "length (filter ?F [0..<Suc k'])
                   = (if ?F 0 then 1 else 0)
                     + length (filter (\<lambda>j. retrieval_failed (net (Suc i + j)) lib (rest ! j) start end_d) [0..<k'])"
        by (subst count_upt_Suc) simp
      have adv: "advance (length (filter (\<lambda>j. retrieval_failed (net (Suc i + j)) lib (rest ! j) start end_d)
                                        [0..<k']) * ?n) g1
                 = advance (length (filter ?F [0..<Suc k']) * ?n) g"
        unfolding g1 advance_advance cnt by (simp add: algebra_simps)
      from IH(5) k' have "map_of R (rest ! k') = Some
            (if retrieval_failed (net (Suc i + k')) lib (rest ! k') start end_d
             then fallback_series start end_d
                    (advance (length (filter (\<lambda>j. retrieval_failed (net (Suc i + j)) lib (rest ! j) start end_d)
                                        [0..<k']) * ?n) g1)
             else real_series (net (Suc i + k')) lib (rest ! k') start end_d)"
        by blast
      then show ?thesis
        unfolding adv Suc by simp
    qed
  qed
  from run dom dist frame entries show ?case by blast
qed

lemma fetch_raises:
  "get (stooq_url (lower symbol)) = Inl e \<Longrightarrow> fetch_stooq_history get lib symbol = Inl e"
  by (simp add: fetch_stooq_history_def)

lemma fetch_unusable:
  assumes "get (stooq_url (lower symbol)) = Inr r1"
      and "get (stooq_url (lower symbol @ ''.us'')) = Inr r2"
      and "status_code r1 \<noteq> 200 \<or> \<not> contains CSV_HEADER (resp_text r1)"
      and "status_code r2 \<noteq> 200 \<or> \<not> contains CSV_HEADER (resp_text r2)"
  shows "fetch_stooq_history get lib symbol = Inr []"
  using assms by (auto simp: fetch_stooq_history_def Let_def)

lemma price_history_entries:
  assumes "0 \<le> start" "end_d < MAXORDINAL"
  shows "\<exists>results g'. get_price_history net lib g symbols start end_d = Inr (results, g')
     \<and> set (map fst results) = set symbols \<and> distinct (map fst results)
     \<and> (\<forall>i < length symbols. symbols ! i \<notin> set (drop (Suc i) symbols) \<longrightarrow>
          map_of results (symbols ! i) = Some
            (if retrieval_failed (net i) lib (symbols ! i) start end_d
             then fallback_series start end_d (advance (draws_before net lib symbols start end_d i) g)
             else real_series (net i) lib (symbols ! i) start end_d))"
proof -
  from price_history_loop_props[OF assms, of net lib 0 symbols "[]" g]
  obtain R G where p:
    "price_history_loop net lib 0 symbols start end_d [] g = Inr (R, G)"
    "fst ` set R = fst ` set ([] :: (string \<times> price_row list) list) \<union> set symbols"
    "distinct (map fst ([] :: (string \<times> price_row list) list)) \<longrightarrow> distinct (map fst R)"
    "\<forall>k < length symbols. symbols ! k \<notin> set (drop (Suc k) symbols) \<longrightarrow>
          map_of R (symbols ! k) = Some
            (if retrieval_failed (net (0 + k)) lib (symbols ! k) start end_d
             then fallback_series start end_d
                    (advance (length (filter (\<lambda>j. retrieval_failed (net (0 + j)) lib (symbols ! j) start end_d)
                                        [0..<k]) * nat (end_d - start)) g)
             else real_series (net (0 + k)) lib (symbols ! k) start end_d)"
    by blast
  have 1: "get_price_history net lib g symbols start end_d = Inr (R, G)"
    using p(1) by (simp add: get_price_history_def)
  have 2: "set (map fst R) = set symbols" "distinct (map fst R)"
    using p(2,3) by simp_all
  have 3: "\<forall>i < length symbols. symbols ! i \<notin> set (drop (Suc i) symbols) \<longrightarrow>
          map_of R (symbols ! i) = Some
            (if retrieval_failed (net i) lib (symbols ! i) start end_d
             then fallback_series start end_d (advance (draws_before net lib symbols start end_d i) g)
             else real_series (net i) lib (symbols ! i) start end_d)"
    using p(4) unfolding draws_before_def add_0 .
  from 1 2 3 show ?thesis by blast
qed

text \<open>
  C2, as amended. For a window that ends before the last day of the calendar the price
  history returns and never raises. Its keys are the symbols asked for. The entry of a
  symbol is its fetched rows inside the window when there are any; when the retrieval
  failed (the fetch raised, both candidates answered with a non-success status or
  without the CSV header, or no fetched row lies in the window) it is the fallback
  series, one row per day of the window, built from the generator as the earlier
  fallbacks left it. So a real series depends on no other symbol, and a fallback series
  depends on the others only through the number of draws their fallbacks consumed.
\<close>

theorem price_history_fallback:
  assumes "valid_date start" and "valid_date end_d" and "end_d < MAXORDINAL"
  shows "(\<exists>results g'. get_price_history net lib g symbols start end_d = Inr (results, g')
       \<and> set (map fst results) = set symbols \<and> distinct (map fst results)
       \<and> (\<forall>i < length symbols. symbols ! i \<notin> set (drop (Suc i) symbols) \<longrightarrow>
            map_of results (symbols ! i) = Some
              (if retrieval_failed (net i) lib (symbols ! i) start end_d
               then fallback_series start end_d (advance (draws_before net lib symbols start end_d i) g)
               else real_series (net i) lib (symbols ! i) start end_d)))
     \<and> (\<forall>h. fallback start end_d h
              = Inr (fallback_series start end_d h, advance (nat (end_d - start)) h)
            \<and> map row_date (fallback_series start end_d h) = [start..end_d])
     \<and> (\<forall>get symbol e. get (stooq_url (lower symbol)) = Inl e
            \<longrightarrow> retrieval_failed get lib symbol start end_d)
     \<and> (\<forall>get symbol r1 r2.
            get (stooq_url (lower symbol)) = Inr r1
            \<and> get (stooq_url (lower symbol @ ''.us'')) = Inr r2
            \<and> (status_code r1 \<noteq> 200 \<or> \<not> contains CSV_HEADER (resp_text r1))
            \<and> (status_code r2 \<noteq> 200 \<or> \<not> contains CSV_HEADER (resp_text r2))
            \<longrightarrow> retrieval_failed get lib symbol start end_d)"
proof -
  have s: "0 \<le> start" using assms(1) by (simp add: valid_date_def)
  have a: "\<forall>get symbol e. get (stooq_url (lower symbol)) = Inl e
            \<longrightarrow> retrieval_failed get lib symbol start end_d"
    by (simp add: retrieval_failed_def fetch_raises)
  have b: "\<forall>get symbol r1 r2.
            get (stooq_url (lower symbol)) = Inr r1
            \<and> get (stooq_url (lower symbol @ ''.us'')) = Inr r2
            \<and> (status_code r1 \<noteq> 200 \<or> \<not> contains CSV_HEADER (resp_text r1))
            \<and> (status_code r2 \<noteq> 200 \<or> \<not> contains CSV_HEADER (resp_text r2))
            \<longrightarrow> retrieval_failed get lib symbol start end_d"
  proof (intro allI impI)
    fix get :: client and symbol r1 r2
    assume "get (stooq_url (lower symbol)) = Inr r1
            \<and> get (stooq_url (lower symbol @ ''.us'')) = Inr r2
            \<and> (status_code r1 \<noteq> 200 \<or> \<not> contains CSV_HEADER (resp_text r1))
            \<and> (status_code r2 \<noteq> 200 \<or> \<not> contains CSV_HEADER (resp_text r2))"
    then have "fetch_stooq_history get lib symbol = Inr []"
      using fetch_unusable[of get symbol r1 r2 lib] by blast
    then show "retrieval_failed get lib symbol start end_d"
      by (simp add: retrieval_failed_def in_range_def)
  qed
  from price_history_entries[OF s assms(3), of net lib g symbols] fallback_days[OF s assms(3)] a b
  show ?thesis by blast
qed

lemma fallback_two_days:
  "fallback_series 738887 738888 g =
     [\<lparr>row_date = 738887, close = 100\<rparr>,
      \<lparr>row_date = 738888,
         close = 100 * exp ((0.07 - 0.5 * 0.2 * 0.2) * (1 / 252) + g 0 * (0.2 * sqrt (1 / 252)))\<rparr>]"
proof -
  have d: "daterange 738887 738888 = Inr [738887, 738888]"
    by (simp add: daterange_def range_loop_days MAXORDINAL_def upto_rec1)
  show ?thesis
    by (simp add: fallback_series_def fallback_def simulate_gbm_def d gauss_def)
qed

lemma down_failed: "retrieval_failed (down_net i) lib symbol start end_d"
  by (simp add: retrieval_failed_def fetch_raises[where e = HTTPError] down_net_def)

lemma aapl_retrieved:
  "\<not> retrieval_failed (demo_net 0) demo_lib ''aapl'' 738887 738888"
  "real_series (demo_net 0) demo_lib ''aapl'' 738887 738888 = [\<lparr>row_date = 738887, close = 50\<rparr>]"
  by (simp_all add: retrieval_failed_def real_series_def demo_fetch_aapl in_range_def)

lemma down_entry_msft:
  "entry_of (get_price_history down_net demo_lib demo_draws [''aapl'', ''msft''] 738887 738888) ''msft''
     = Some (fallback_series 738887 738888 (advance 1 demo_draws))"
proof -
  from price_history_entries[of 738887 738888 down_net demo_lib demo_draws "[''aapl'', ''msft'']"]
  obtain results g' where r:
    "get_price_history down_net demo_lib demo_draws [''aapl'', ''msft''] 738887 738888 = Inr (results, g')"
    "\<forall>i < length [''aapl'', ''msft'']. [''aapl'', ''msft''] ! i \<notin> set (drop (Suc i) [''aapl'', ''msft'']) \<longrightarrow>
          map_of results ([''aapl'', ''msft''] ! i) = Some
            (if retrieval_failed (down_net i) demo_lib ([''aapl'', ''msft''] ! i) 738887 738888
             then fallback_series 738887 738888
                    (advance (draws_before down_net demo_lib [''aapl'', ''msft''] 738887 738888 i) demo_draws)
             else real_series (down_net i) demo_lib ([''aapl'', ''msft''] ! i) 738887 738888)"
    by (auto simp: MAXORDINAL_def)
  have "draws_before down_net demo_lib [''aapl'', ''msft''] 738887 738888 1 = 1"
    by (simp add: draws_before_def down_failed)
  with r(2)[rule_format, of 1] show ?thesis
    by (simp add: entry_of_def r(1) down_failed)
qed

lemma first_up_entry_msft:
  "entry_of (get_price_history first_up_net demo_lib demo_draws [''aapl'', ''msft''] 738887 738888) ''msft''
     = Some (fallback_series 738887 738888 demo_draws)"
proof -
  from price_history_entries[of 738887 738888 first_up_net demo_lib demo_draws "[''aapl'', ''msft'']"]
  obtain results g' where r:
    "get_price_history first_up_net demo_lib demo_draws [''aapl'', ''msft''] 738887 738888 = Inr (results, g')"
    "\<forall>i < length [''aapl'', ''msft'']. [''aapl'', ''msft''] ! i \<notin> set (drop (Suc i) [''aapl'', ''msft'']) \<longrightarrow>
          map_of results ([''aapl'', ''msft''] ! i) = Some
            (if retrieval_failed (first_up_net i) demo_lib ([''aapl'', ''msft''] ! i) 738887 738888
             then fallback_series 738887 738888
                    (advance (draws_before first_up_net demo_lib [''aapl'', ''msft''] 738887 738888 i) demo_draws)
             else real_series (first_up_net i) demo_lib ([''aapl'', ''msft''] ! i) 738887 738888)"
    by (auto simp: MAXORDINAL_def)
  have "draws_before first_up_net demo_lib [''aapl'', ''msft''] 738887 738888 1 = 0"
    by (simp add: draws_before_def first_up_net_def aapl_retrieved)
  with r(2)[rule_format, of 1] show ?thesis
    by (simp add: entry_of_def r(1) first_up_net_def down_failed advance_0)
qed

text \<open>
  C2 as stated fails in two ways. The fallback of a symbol draws from the generator all
  fallbacks share: with every request failing, the second symbol gets the series built
  from the second draw, and when the first symbol is retrieved instead it gets the one
  built from the first draw, although its own fetch fails alike in both runs. And with
  a window that ends on 9999-12-31 the fallback itself raises, so the error reaches
  the caller.
\<close>

theorem shared_generator_couples_fallbacks:
  "first_up_net 1 = down_net 1
   \<and> entry_of (get_price_history down_net demo_lib demo_draws [''aapl'', ''msft''] 738887 738888) ''msft''
       = Some [\<lparr>row_date = 738887, close = 100\<rparr>,
               \<lparr>row_date = 738888,
                  close = 100 * exp ((0.07 - 0.5 * 0.2 * 0.2) * (1 / 252) + (- 1) * (0.2 * sqrt (1 / 252)))\<rparr>]
   \<and> entry_of (get_price_history first_up_net demo_lib demo_draws [''aapl'', ''msft''] 738887 738888) ''msft''
       = Some [\<lparr>row_date = 738887, close = 100\<rparr>,
               \<lparr>row_date = 738888,
                  close = 100 * exp ((0.07 - 0.5 * 0.2 * 0.2) * (1 / 252) + 0 * (0.2 * sqrt (1 / 252)))\<rparr>]
   \<and> entry_of (get_price_history down_net demo_lib demo_draws [''aapl'', ''msft''] 738887 738888) ''msft''
       \<noteq> entry_of (get_price_history first_up_net demo_lib demo_draws [''aapl'', ''msft''] 738887 738888) ''msft''
   \<and> get_price_history down_net demo_lib demo_draws [''aapl''] 3652058 3652059 = Inl OverflowError"
proof -
  have o: "fallback 3652058 3652059 g = Inl OverflowError" for g
    by (simp add: fallback_def simulate_gbm_def daterange_def range_loop_overflow MAXORDINAL_def)
  have f: "fetch_stooq_history (down_net 0) demo_lib ''aapl'' = Inl HTTPError"
    by (simp add: fetch_raises down_net_def)
  have m: "get_price_history down_net demo_lib demo_draws [''aapl''] 3652058 3652059 = Inl OverflowError"
    by (simp add: get_price_history_def series_for_def try_fetch_def f o)
  show ?thesis
    unfolding down_entry_msft first_up_entry_msft fallback_two_days
    by (simp add: m first_up_net_def advance_def demo_draws_def)
qed


theorem price_history_fallback_witness:
  "valid_date 738887 \<and> valid_date 738888 \<and> 738888 < MAXORDINAL
   \<and> \<not> retrieval_failed (first_up_net 0) demo_lib ''aapl'' 738887 738888
   \<and> retrieval_failed (first_up_net 1) demo_lib ''msft'' 738887 738888
   \<and> entry_of (get_price_history first_up_net demo_lib demo_draws [''aapl'', ''msft''] 738887 738888) ''aapl''
       = Some [\<lparr>row_date = 738887, close = 50\<rparr>]
   \<and> entry_of (get_price_history first_up_net demo_lib demo_draws [''aapl'', ''msft''] 738887 738888) ''msft''
       = Some (fallback_series 738887 738888 demo_draws)
   \<and> map row_date (fallback_series 738887 738888 demo_draws) = [738887, 738888]"
proof -
  have v: "valid_date 738887" "valid_date 738888" "738888 < MAXORDINAL"
    by (simp_all add: valid_date_def MAXORDINAL_def)
  from price_history_fallback[OF v, of first_up_net demo_lib demo_draws "[''aapl'', ''msft'']"]
  obtain results g' where r:
    "get_price_history first_up_net demo_lib demo_draws [''aapl'', ''msft''] 738887 738888 = Inr (results, g')"
    "\<forall>i < length [''aapl'', ''msft'']. [''aapl'', ''msft''] ! i \<notin> set (drop (Suc i) [''aapl'', ''msft'']) \<longrightarrow>
          map_of results ([''aapl'', ''msft''] ! i) = Some
            (if retrieval_failed (first_up_net i) demo_lib ([''aapl'', ''msft''] ! i) 738887 738888
             then fallback_series 738887 738888
                    (advance (draws_before first_up_net demo_lib [''aapl'', ''msft''] 738887 738888 i) demo_draws)
             else real_series (first_up_net i) demo_lib ([''aapl'', ''msft''] ! i) 738887 738888)"
    and days: "map row_date (fallback_series 738887 738888 demo_draws) = [738887..738888]"
    by blast
  have d: "draws_before first_up_net demo_lib [''aapl'', ''msft''] 738887 738888 (Suc 0) = 0"
    by (simp add: draws_before_def first_up_net_def aapl_retrieved)
  have a: "map_of results ''aapl'' = Some [\<lparr>row_date = 738887, close = 50\<rparr>]"
    using r(2)[rule_format, of 0] by (simp add: first_up_net_def aapl_retrieved)
  have m: "map_of results ''msft'' = Some (fallback_series 738887 738888 demo_draws)"
    using r(2)[rule_format, of 1] by (simp add: d first_up_net_def down_failed advance_0)
  have u: "[738887..738888] = [738887, 738888 :: int]"
    by (simp add: upto_rec1)
  show ?thesis
    using v a m days
    by (simp add: entry_of_def r(1) u first_up_net_def down_failed aapl_retrieved)
qed

section \<open>Portfolio value\<close>










section \<open>Last prices\<close>




section \<open>Allocation\<close>







section \<open>Monte Carlo projection\<close>

subsection \<open>The range of the exponential\<close>

lemma exp_one_ge_two: "(2::real) \<le> exp 1"
  using exp_ge_add_one_self[of "1::real"] by simp

lemma exp_large:
  fixes x :: real
  assumes "1024 \<le> x"
  shows "\<not> exp x < 2 ^ 1024"
proof -
  have "(2::real) ^ 1024 \<le> exp 1 ^ 1024"
    by (rule power_mono[OF exp_one_ge_two]) simp
  also have "\<dots> = exp (of_nat 1024 * 1)"
    by (rule exp_of_nat_mult[symmetric])
  also have "\<dots> \<le> exp x"
    using assms by simp
  finally show ?thesis by (rule leD)
qed



lemma math_exp_overflow: "\<not> exp x < 2 ^ 1024 \<Longrightarrow> math_exp x = Inl OverflowError"
  unfolding math_exp_def by (rule if_not_P)


lemma math_exp_beyond: "(1024::real) \<le> x \<Longrightarrow> math_exp x = Inl OverflowError"
  by (rule math_exp_overflow, rule exp_large)

subsection \<open>The paths\<close>











subsection \<open>The bands\<close>







lemma floor_tenth: "\<lfloor>0.10 * real m\<rfloor> = int (m div 10)"
proof -
  have "0.10 * real m = real m / real 10" by simp
  then show ?thesis by (simp only: floor_divide_of_nat_eq)
qed

lemma floor_nine_tenths: "\<lfloor>0.90 * real m\<rfloor> = int (9 * m div 10)"
proof -
  have "0.90 * real m = real (9 * m) / real 10" by simp
  then show ?thesis by (simp only: floor_divide_of_nat_eq)
qed








subsection \<open>The starting value and the endpoint\<close>







subsection \<open>The worked examples\<close>







subsection \<open>The bands are order statistics\<close>




subsection \<open>The order of the bands\<close>




subsection \<open>Zero volatility\<close>









section \<open>The band indices under rounding\<close>

text \<open>
  The code computes \<^verbatim>\<open>0.10 * (len(col)-1)\<close> and \<^verbatim>\<open>0.90 * (len(col)-1)\<close> in binary
  floating point and truncates. For every rounding of the exact product that is
  monotone, leaves the natural numbers as they are and exceeds a non-negative value by
  at most its \<open>2 ^ 53\<close>-th part, as round-to-nearest does, the truncated product is the
  floor of the product over the reals, for fewer than \<open>2 ^ 40\<close> simulations. So the
  indices of the model, computed over the reals, are those of the code.
\<close>

lemma rounded_index:
  fixes rnd :: "real \<Rightarrow> real" and m k :: nat
  assumes mono: "\<And>x y. x \<le> y \<Longrightarrow> rnd x \<le> rnd y"
      and exact: "\<And>j :: nat. rnd (real j) = real j"
      and err: "\<And>x. 0 \<le> x \<Longrightarrow> rnd x \<le> x + x / 2 ^ 53"
      and lo: "real m \<le> x" and hi: "x \<le> real m + 91 / 100" and m: "m < 2 ^ 40"
  shows "py_int (rnd x) = int m"
proof -
  have "rnd (real m) \<le> rnd x" using lo by (rule mono)
  then have a: "real m \<le> rnd x" by (simp add: exact)
  have x0: "0 \<le> x" using lo by linarith
  have "real m < 2 ^ 40" using m by (metis of_nat_less_iff of_nat_numeral of_nat_power)
  then have "x < 2 ^ 41" using hi by simp
  then have "x / 2 ^ 53 < 2 ^ 41 / 2 ^ 53" by (simp add: divide_strict_right_mono)
  then have "x / 2 ^ 53 < 1 / 100" by simp
  with err[OF x0] hi have b: "rnd x < real m + 1" by linarith
  have "\<lfloor>rnd x\<rfloor> = int m"
    using a b by (simp add: floor_unique)
  moreover have "0 \<le> rnd x" using a by linarith
  ultimately show ?thesis by (simp add: py_int_def)
qed

lemma double_p10_index:
  fixes rnd :: "real \<Rightarrow> real"
  assumes "\<And>x y. x \<le> y \<Longrightarrow> rnd x \<le> rnd y"
      and "\<And>j :: nat. rnd (real j) = real j"
      and "\<And>x. 0 \<le> x \<Longrightarrow> rnd x \<le> x + x / 2 ^ 53"
      and k: "k < 2 ^ 40"
  shows "py_int (rnd (DOUBLE_0_10 * real k)) = \<lfloor>0.10 * real k\<rfloor>"
proof -
  have d: "real k = 10 * real (k div 10) + real (k mod 10)"
    by (metis mult_div_mod_eq of_nat_add of_nat_mult of_nat_numeral)
  have "k mod 10 \<le> 9" by arith
  then have r: "real (k mod 10) \<le> 9" by simp
  have kk: "real k < 2 ^ 40" using k by (metis of_nat_less_iff of_nat_numeral of_nat_power)
  have "k div 10 \<le> k" by simp
  then have m: "k div 10 < 2 ^ 40" using k by linarith
  have lo: "real (k div 10) \<le> DOUBLE_0_10 * real k"
    unfolding DOUBLE_0_10_def using d r by simp
  have hi: "DOUBLE_0_10 * real k \<le> real (k div 10) + 91 / 100"
    unfolding DOUBLE_0_10_def using d r kk by simp
  have "\<lfloor>0.10 * real k\<rfloor> = int (k div 10)"
    by (rule floor_tenth)
  with rounded_index[OF assms(1-3) lo hi m] show ?thesis by simp
qed


lemma double_p90_index:
  fixes rnd :: "real \<Rightarrow> real"
  assumes "\<And>x y. x \<le> y \<Longrightarrow> rnd x \<le> rnd y"
      and "\<And>j :: nat. rnd (real j) = real j"
      and "\<And>x. 0 \<le> x \<Longrightarrow> rnd x \<le> x + x / 2 ^ 53"
      and k: "k < 2 ^ 40"
  shows "py_int (rnd (DOUBLE_0_90 * real k)) = \<lfloor>0.90 * real k\<rfloor>"
proof -
  have "real (9 * k) = 10 * real (9 * k div 10) + real (9 * k mod 10)"
    by (metis mult_div_mod_eq of_nat_add of_nat_mult of_nat_numeral)
  then have d: "9 * real k = 10 * real (9 * k div 10) + real (9 * k mod 10)"
    by simp
  have "9 * k mod 10 \<le> 9" by arith
  then have r: "real (9 * k mod 10) \<le> 9" by simp
  have kk: "real k < 2 ^ 40" using k by (metis of_nat_less_iff of_nat_numeral of_nat_power)
  have "9 * k div 10 \<le> k" by arith
  then have m: "9 * k div 10 < 2 ^ 40" using k by linarith
  have lo: "real (9 * k div 10) \<le> DOUBLE_0_90 * real k"
    unfolding DOUBLE_0_90_def using d r by simp
  have hi: "DOUBLE_0_90 * real k \<le> real (9 * k div 10) + 91 / 100"
    unfolding DOUBLE_0_90_def using d r kk by simp
  have "\<lfloor>0.90 * real k\<rfloor> = int (9 * k div 10)"
    by (rule floor_nine_tenths)
  with rounded_index[OF assms(1-3) lo hi m] show ?thesis by simp
qed

end
